theory Spec2Isabelle
  imports Complex_Main "HOL-Library.Char_ord" "HOL-Library.List_Lexorder"
    "HOL-Library.Product_Lexorder"
begin

section \<open>Thread sweep and benchmark scripts: a shallow embedding\<close>

text \<open>
  The development embeds \<^verbatim>\<open>analysis/find_opt_threads.py\<close> (\<^verbatim>\<open>run_java\<close>,
  \<^verbatim>\<open>sweep_threads\<close>) and the speedup computation of
  \<^verbatim>\<open>analysis/benchmark_and_plot.py\<close> (\<^verbatim>\<open>plot_results\<close>).

  Conventions of the embedding:
  \<^item> Python \<^verbatim>\<open>int\<close> is \<open>int\<close>. Python \<^verbatim>\<open>float\<close> is modelled by exact
    real arithmetic (\<open>real\<close>); \<^verbatim>\<open>math.inf\<close> is the constructor \<open>Infinity\<close> of
    \<open>bound\<close>. Rounding of IEEE doubles is therefore not represented.
  \<^item> Python \<^verbatim>\<open>str\<close> is \<open>string\<close>; every \<open>char\<close> stands for the code point of
    the same number (code points below 256).
  \<^item> An exception is a value of \<open>error\<close>; a function that may raise returns
    \<open>error + 'a\<close>, with \<open>Inl\<close> for the exception.
  \<^item> The external Java process is an input: \<open>run t i\<close> is the completed process
    of the \<open>i\<close>-th trial at \<open>t\<close> threads. Within one sweep every pair \<open>(t, i)\<close>
    is invoked at most once.
\<close>

subsection \<open>Exceptions\<close>

text \<open>
  \<open>ExecutionFailure\<close> is the \<^verbatim>\<open>RuntimeError\<close> that \<^verbatim>\<open>run_java\<close> raises on a non-zero exit
  status, \<open>ParseFailure line\<close> is the \<^verbatim>\<open>RuntimeError\<close> whose message ends with the line that
  could not be parsed, \<open>SystemExit\<close> is \<^verbatim>\<open>sys.exit(2)\<close>; the others are the Python built-in exceptions of
  the same name.
\<close>

datatype error =
    ExecutionFailure
  | ParseFailure string
  | IndexError
  | StatisticsError
  | ZeroDivisionError
  | SystemExit int

subsection \<open>String operations of Python used by \<^verbatim>\<open>run_java\<close>\<close>

text \<open>\<^verbatim>\<open>str.isspace\<close> on one code point below 256.\<close>

definition isspace_chr :: "char \<Rightarrow> bool" where
  "isspace_chr c = ((of_char c :: nat) \<in> set [9, 10, 11, 12, 13, 28, 29, 30, 31, 32, 133, 160])"

text \<open>Line boundaries of \<^verbatim>\<open>str.splitlines\<close> below 256.\<close>

definition islinebreak_chr :: "char \<Rightarrow> bool" where
  "islinebreak_chr c = ((of_char c :: nat) \<in> set [10, 11, 12, 13, 28, 29, 30, 133])"

text \<open>Decimal digits (\<^verbatim>\<open>\d\<close>, and the digits \<^verbatim>\<open>int\<close> accepts) below 256.\<close>

definition isdecimal_chr :: "char \<Rightarrow> bool" where
  "isdecimal_chr c = (48 \<le> (of_char c :: nat) \<and> (of_char c :: nat) \<le> 57)"

text \<open>\<^verbatim>\<open>str.isdigit\<close> on one code point: the decimal digits and superscripts 2, 3, 1.\<close>

definition isdigit_chr :: "char \<Rightarrow> bool" where
  "isdigit_chr c = (isdecimal_chr c \<or> (of_char c :: nat) \<in> set [178, 179, 185])"

definition isdigit :: "string \<Rightarrow> bool" where
  "isdigit s = (s \<noteq> [] \<and> list_all isdigit_chr s)"

definition endswith_ms :: "string \<Rightarrow> bool" where
  "endswith_ms s = (2 \<le> length s \<and> drop (length s - 2) s = ''ms'')"

definition strip :: "string \<Rightarrow> string" where
  "strip s = rev (dropWhile isspace_chr (rev (dropWhile isspace_chr s)))"

text \<open>\<^verbatim>\<open>str.splitlines()\<close>; \<open>cur\<close> is the line being read.\<close>

fun splitlines_from :: "string \<Rightarrow> string \<Rightarrow> string list" where
  "splitlines_from cur [] = (if cur = [] then [] else [cur])"
| "splitlines_from cur [c] =
     (if islinebreak_chr c then [cur] else [cur @ [c]])"
| "splitlines_from cur (c # d # cs) =
     (if c = CHR 0x0D \<and> d = CHR 0x0A then cur # splitlines_from [] cs
      else if islinebreak_chr c then cur # splitlines_from [] (d # cs)
      else splitlines_from (cur @ [c]) (d # cs))"

definition splitlines :: "string \<Rightarrow> string list" where
  "splitlines s = splitlines_from [] s"

text \<open>\<^verbatim>\<open>str.split()\<close> with no argument; \<open>cur\<close> is the token being read.\<close>

fun split_from :: "string \<Rightarrow> string \<Rightarrow> string list" where
  "split_from cur [] = (if cur = [] then [] else [cur])"
| "split_from cur (c # cs) =
     (if isspace_chr c then (if cur = [] then split_from [] cs else cur # split_from [] cs)
      else split_from (cur @ [c]) cs)"

definition split :: "string \<Rightarrow> string list" where
  "split s = split_from [] s"

text \<open>\<^verbatim>\<open>tok.replace("ms", "")\<close>.\<close>

fun replace_ms :: "string \<Rightarrow> string" where
  "replace_ms (c # d # cs) =
     (if c = CHR ''m'' \<and> d = CHR ''s'' then replace_ms cs else c # replace_ms (d # cs))"
| "replace_ms cs = cs"

definition digit_val :: "char \<Rightarrow> nat" where
  "digit_val c = of_char c - 48"

text \<open>
  The body of an integer literal accepted by \<^verbatim>\<open>int(s)\<close>: decimal digits, with single
  underscores between digits. \<open>prev\<close> tells whether the previous character was a digit.
\<close>

fun int_body :: "nat \<Rightarrow> bool \<Rightarrow> string \<Rightarrow> nat option" where
  "int_body acc prev [] = (if prev then Some acc else None)"
| "int_body acc prev (c # cs) =
     (if isdecimal_chr c then int_body (10 * acc + digit_val c) True cs
      else if c = CHR ''_'' \<and> prev then int_body acc False cs
      else None)"

text \<open>\<^verbatim>\<open>int(s)\<close>: \<open>None\<close> is \<^verbatim>\<open>ValueError\<close>. The bound that recent Python versions put
  on the number of digits is not modelled.\<close>

definition py_int :: "string \<Rightarrow> int option" where
  "py_int s =
     (case strip s of
        [] \<Rightarrow> None
      | c # cs \<Rightarrow>
          if c = CHR ''-'' then map_option (\<lambda>n. - int n) (int_body 0 False cs)
          else if c = CHR ''+'' then map_option int (int_body 0 False cs)
          else map_option int (int_body 0 False (c # cs)))"

text \<open>
  \<^verbatim>\<open>re.search(r"(\d+)\s*ms", line)\<close>: \<open>re_match_here\<close> is a match that starts at the
  head of the string and yields group 1; \<open>re_search\<close> takes the leftmost start.
\<close>

definition re_match_here :: "string \<Rightarrow> string option" where
  "re_match_here s =
     (let ds = takeWhile isdecimal_chr s;
          rest = dropWhile isspace_chr (dropWhile isdecimal_chr s)
      in if ds \<noteq> [] \<and> take 2 rest = ''ms'' then Some ds else None)"

fun re_search :: "string \<Rightarrow> string option" where
  "re_search [] = None"
| "re_search (c # cs) =
     (case re_match_here (c # cs) of Some g \<Rightarrow> Some g | None \<Rightarrow> re_search cs)"

subsection \<open>\<^verbatim>\<open>run_java\<close>\<close>

text \<open>
  The result of \<^verbatim>\<open>subprocess.run(cmd, capture_output=True, text=True)\<close>; the standard
  error stream is only printed and is left out.
\<close>

record completed_process =
  returncode :: int
  stdout :: string

text \<open>The \<^verbatim>\<open>except Exception\<close> branch.\<close>

definition parse_fallback :: "string \<Rightarrow> error + int" where
  "parse_fallback line =
     (case re_search line of
        None \<Rightarrow> Inl (ParseFailure line)
      | Some g \<Rightarrow> Inr (int (fold (\<lambda>c acc. 10 * acc + digit_val c) g 0)))"

text \<open>The \<^verbatim>\<open>try\<close> block and its handler.\<close>

definition parse_line :: "string \<Rightarrow> error + int" where
  "parse_line line =
     (case filter (\<lambda>tok. isdigit tok \<or> endswith_ms tok) (split line) of
        [] \<Rightarrow> parse_fallback line
      | tok # toks \<Rightarrow>
          (case py_int (replace_ms (last (tok # toks))) of
             Some ms_val \<Rightarrow> Inr ms_val
           | None \<Rightarrow> parse_fallback line))"

definition run_java :: "completed_process \<Rightarrow> error + int" where
  "run_java res =
     (if returncode res \<noteq> 0 then Inl ExecutionFailure
      else
        (case splitlines (strip (stdout res)) of
           [] \<Rightarrow> Inl IndexError
         | l # ls \<Rightarrow> parse_line (last (l # ls))))"

subsection \<open>\<^verbatim>\<open>sweep_threads\<close>\<close>

text \<open>One entry of \<^verbatim>\<open>records\<close>, a row of the returned data frame.\<close>

record measurement =
  threads :: int
  run_idx :: int
  ms :: int

text \<open>The values \<^verbatim>\<open>best_mean\<close> takes: \<^verbatim>\<open>math.inf\<close> or a finite number.\<close>

datatype bound = Finite real | Infinity

fun lt_bound :: "real \<Rightarrow> bound \<Rightarrow> bool" where
  "lt_bound x Infinity = True"
| "lt_bound x (Finite b) = (x < b)"

text \<open>The tolerance \<^verbatim>\<open>1e-9\<close>.\<close>

definition eps :: real where
  "eps = 1 / 10 ^ 9"

text \<open>
  What the loop body prints about a level: a new best with its gain, a gain of at
  least \<^verbatim>\<open>min_gain\<close>, or no relevant gain with the counter after its increment.
\<close>

datatype outcome = NewBest real | GainContinues | NoGain int

record sweep_state =
  records :: "measurement list"
  best_mean :: bound
  no_improve :: int
  console :: "(int \<times> outcome) list"

text \<open>
  \<^verbatim>\<open>statistics.mean\<close> and \<^verbatim>\<open>statistics.pstdev\<close> of the Python library: the mean raises
  \<^verbatim>\<open>StatisticsError\<close> on empty data; the population standard deviation is the square
  root of the mean squared deviation.
\<close>

definition statistics_mean :: "int list \<Rightarrow> error + real" where
  "statistics_mean xs =
     (if xs = [] then Inl StatisticsError
      else Inr (real_of_int (sum_list xs) / real (length xs)))"

definition statistics_pstdev :: "int list \<Rightarrow> error + real" where
  "statistics_pstdev xs =
     (case statistics_mean xs of
        Inl e \<Rightarrow> Inl e
      | Inr mu \<Rightarrow> Inr (sqrt ((\<Sum>x\<leftarrow>xs. (real_of_int x - mu)\<^sup>2) / real (length xs))))"

text \<open>
  The inner loop \<^verbatim>\<open>for i in range(1, iters + 1)\<close> at \<open>t\<close> threads, over the remaining
  run indices; \<open>run_t i\<close> is the process of trial \<open>i\<close>.
\<close>

fun run_iters ::
  "(int \<Rightarrow> completed_process) \<Rightarrow> int \<Rightarrow> int list \<Rightarrow> int list \<times> measurement list
    \<Rightarrow> error + (int list \<times> measurement list)" where
  "run_iters run_t t [] (tms, recs) = Inr (tms, recs)"
| "run_iters run_t t (i # idxs) (tms, recs) =
     (case run_java (run_t i) of
        Inl e \<Rightarrow> Inl e
      | Inr v \<Rightarrow>
          run_iters run_t t idxs
            (tms @ [v], recs @ [\<lparr>threads = t, run_idx = i, ms = v\<rparr>]))"

text \<open>\<^verbatim>\<open>mean_t\<close> and \<^verbatim>\<open>std_t\<close> of a level.\<close>

definition sample_stats :: "int list \<Rightarrow> error + (real \<times> real)" where
  "sample_stats tms =
     (case statistics_mean tms of
        Inl e \<Rightarrow> Inl e
      | Inr mean_t \<Rightarrow>
          if length tms > 1 then
            (case statistics_pstdev tms of
               Inl e \<Rightarrow> Inl e
             | Inr std_t \<Rightarrow> Inr (mean_t, std_t))
          else Inr (mean_t, 0))"

text \<open>The quotient \<^verbatim>\<open>(best_mean - mean_t) / best_mean\<close> for a finite \<^verbatim>\<open>best_mean\<close>.\<close>

definition rel_gain :: "real \<Rightarrow> real \<Rightarrow> error + real" where
  "rel_gain b mean_t = (if b = 0 then Inl ZeroDivisionError else Inr ((b - mean_t) / b))"

text \<open>
  The decision of the loop body on \<^verbatim>\<open>mean_t\<close>: the new \<^verbatim>\<open>best_mean\<close>, the new
  \<^verbatim>\<open>no_improve\<close>, what is printed, and whether the loop breaks.
\<close>

definition decide ::
  "int \<Rightarrow> real \<Rightarrow> real \<Rightarrow> bound \<Rightarrow> int \<Rightarrow> error + (bound \<times> int \<times> outcome \<times> bool)" where
  "decide patience min_gain mean_t best no_imp =
     (if lt_bound (mean_t + eps) best then
        (case (case best of Infinity \<Rightarrow> Inr 1 | Finite b \<Rightarrow> rel_gain b mean_t) of
           Inl e \<Rightarrow> Inl e
         | Inr gain \<Rightarrow> Inr (Finite mean_t, 0, NewBest gain, False))
      else
        (case (case best of Infinity \<Rightarrow> Inr 0 | Finite b \<Rightarrow> rel_gain b mean_t) of
           Inl e \<Rightarrow> Inl e
         | Inr gain \<Rightarrow>
             if gain \<ge> min_gain then Inr (best, 0, GainContinues, False)
             else Inr (best, no_imp + 1, NoGain (no_imp + 1), no_imp + 1 \<ge> patience)))"

text \<open>The body of \<^verbatim>\<open>for t in range(tmin, tmax + 1)\<close>; the flag is \<^verbatim>\<open>break\<close>.\<close>

definition sweep_level ::
  "(int \<Rightarrow> int \<Rightarrow> completed_process) \<Rightarrow> int \<Rightarrow> int \<Rightarrow> real \<Rightarrow> int \<Rightarrow> sweep_state
    \<Rightarrow> error + (sweep_state \<times> bool)" where
  "sweep_level run iters patience min_gain t st =
     (case run_iters (run t) t [1..iters] ([], records st) of
        Inl e \<Rightarrow> Inl e
      | Inr (tms, recs) \<Rightarrow>
          (case sample_stats tms of
             Inl e \<Rightarrow> Inl e
           | Inr (mean_t, std_t) \<Rightarrow>
               (case decide patience min_gain mean_t (best_mean st) (no_improve st) of
                  Inl e \<Rightarrow> Inl e
                | Inr (b, n, out, brk) \<Rightarrow>
                    Inr (\<lparr>records = recs, best_mean = b, no_improve = n,
                          console = console st @ [(t, out)]\<rparr>, brk))))"

text \<open>The outer loop over the remaining levels; the flag tells whether it ended by \<^verbatim>\<open>break\<close>.\<close>

fun sweep_loop ::
  "(int \<Rightarrow> int \<Rightarrow> completed_process) \<Rightarrow> int \<Rightarrow> int \<Rightarrow> real \<Rightarrow> int list \<Rightarrow> sweep_state
    \<Rightarrow> error + (sweep_state \<times> bool)" where
  "sweep_loop run iters patience min_gain [] st = Inr (st, False)"
| "sweep_loop run iters patience min_gain (t # ts) st =
     (case sweep_level run iters patience min_gain t st of
        Inl e \<Rightarrow> Inl e
      | Inr (st', brk) \<Rightarrow>
          if brk then Inr (st', True) else sweep_loop run iters patience min_gain ts st')"

definition init_state :: sweep_state where
  "init_state = \<lparr>records = [], best_mean = Infinity, no_improve = 0, console = []\<rparr>"

text \<open>The whole loop, with the final state and the console log kept.\<close>

definition sweep_run ::
  "(int \<Rightarrow> int \<Rightarrow> completed_process) \<Rightarrow> int \<Rightarrow> int \<Rightarrow> int \<Rightarrow> int \<Rightarrow> real
    \<Rightarrow> error + (sweep_state \<times> bool)" where
  "sweep_run run iters tmin tmax patience min_gain =
     sweep_loop run iters patience min_gain [tmin..tmax] init_state"

text \<open>\<^verbatim>\<open>sweep_threads\<close>: the rows of the returned data frame.\<close>

definition sweep_threads ::
  "(int \<Rightarrow> int \<Rightarrow> completed_process) \<Rightarrow> int \<Rightarrow> int \<Rightarrow> int \<Rightarrow> int \<Rightarrow> real
    \<Rightarrow> error + measurement list" where
  "sweep_threads run iters tmin tmax patience min_gain =
     (case sweep_run run iters tmin tmax patience min_gain of
        Inl e \<Rightarrow> Inl e
      | Inr (st, brk) \<Rightarrow> Inr (records st))"

subsection \<open>The speedup table of \<^verbatim>\<open>plot_results\<close>\<close>







subsection \<open>Example processes\<close>

text \<open>
  The scenario of the specification: every trial at 1, 2, 3, 4 and 5 threads takes
  1000, 600, 590, 592 and 591 ms.
\<close>

definition scenario_line :: "int \<Rightarrow> string" where
  "scenario_line t =
     (if t = 1 then ''Paralelo (1 threads): 1000 ms''
      else if t = 2 then ''Paralelo (2 threads): 600 ms''
      else if t = 3 then ''Paralelo (3 threads): 590 ms''
      else if t = 4 then ''Paralelo (4 threads): 592 ms''
      else ''Paralelo (5 threads): 591 ms'')"

definition scenario_run :: "int \<Rightarrow> int \<Rightarrow> completed_process" where
  "scenario_run t i = \<lparr>returncode = 0, stdout = scenario_line t\<rparr>"


text \<open>A workload that reports 0 ms at 1 thread and 3 ms otherwise.\<close>

definition zero_run :: "int \<Rightarrow> int \<Rightarrow> completed_process" where
  "zero_run t i = \<lparr>returncode = 0, stdout = (if t = 1 then ''0 ms'' else ''3 ms'')\<rparr>"

text \<open>Processes that exit with status 1: at the first trial of level 1, and at the
  second trial of level 2.\<close>

definition fail_first_run :: "int \<Rightarrow> int \<Rightarrow> completed_process" where
  "fail_first_run t i =
     (if t = 1 \<and> i = 1 then \<lparr>returncode = 1, stdout = []\<rparr>
      else \<lparr>returncode = 0, stdout = ''5 ms''\<rparr>)"

definition fail_later_run :: "int \<Rightarrow> int \<Rightarrow> completed_process" where
  "fail_later_run t i =
     (if t = 2 \<and> i = 2 then \<lparr>returncode = 1, stdout = []\<rparr>
      else \<lparr>returncode = 0, stdout = ''5 ms''\<rparr>)"


subsection \<open>Notions used to state the properties\<close>



section \<open>Properties\<close>

subsection \<open>Auxiliary facts\<close>

lemma eps_pos: "0 < eps"
  by (simp add: eps_def)

lemma run_java_scenario:
  "run_java (scenario_run 1 i) = Inr 1000"
  "run_java (scenario_run 2 i) = Inr 600"
  "run_java (scenario_run 3 i) = Inr 590"
  "run_java (scenario_run 4 i) = Inr 592"
  "run_java (scenario_run 5 i) = Inr 591"
  unfolding scenario_run_def scenario_line_def by code_simp+


lemma run_java_zero:
  "run_java (zero_run 1 i) = Inr 0"
  "run_java (zero_run 2 i) = Inr 3"
  unfolding zero_run_def by code_simp+

lemma run_java_5ms: "run_java \<lparr>returncode = 0, stdout = ''5 ms''\<rparr> = Inr 5"
  by code_simp

lemma run_java_nonzero_exit: "returncode res \<noteq> 0 \<Longrightarrow> run_java res = Inl ExecutionFailure"
  by (simp add: run_java_def)

lemma sample_stats_mean:
  "statistics_mean tms = Inr m \<Longrightarrow> \<exists>s. sample_stats tms = Inr (m, s)"
  by (simp add: sample_stats_def statistics_pstdev_def)

lemma sample_stats_Inr:
  "sample_stats tms = Inr (m, s) \<Longrightarrow> statistics_mean tms = Inr m"
  by (auto simp: sample_stats_def statistics_pstdev_def split: sum.splits if_splits)

lemma run_iters_ok:
  "\<forall>i\<in>set idxs. run_java (run_t i) = Inr (m i) \<Longrightarrow>
   run_iters run_t t idxs (tms, recs) =
     Inr (tms @ map m idxs, recs @ map (\<lambda>i. \<lparr>threads = t, run_idx = i, ms = m i\<rparr>) idxs)"
  by (induction idxs arbitrary: tms recs) simp_all

lemma run_iters_fail:
  "\<forall>j\<in>set pre. \<exists>v. run_java (run_t j) = Inr v \<Longrightarrow> run_java (run_t i) = Inl e \<Longrightarrow>
   run_iters run_t t (pre @ i # post) (tms, recs) = Inl e"
  by (induction pre arbitrary: tms recs) auto

lemma run_iters_Inr:
  "run_iters run_t t idxs (tms, recs) = Inr (tms', recs') \<Longrightarrow>
   \<exists>vs. length vs = length idxs \<and> tms' = tms @ vs \<and>
        recs' = recs @ map (\<lambda>(i, v). \<lparr>threads = t, run_idx = i, ms = v\<rparr>) (zip idxs vs) \<and>
        (\<forall>k<length idxs. run_java (run_t (idxs ! k)) = Inr (vs ! k))"
proof (induction idxs arbitrary: tms recs)
  case Nil
  then show ?case by simp
next
  case (Cons i idxs)
  from Cons.prems obtain v where v: "run_java (run_t i) = Inr v"
    and rest: "run_iters run_t t idxs (tms @ [v], recs @ [\<lparr>threads = t, run_idx = i, ms = v\<rparr>])
                 = Inr (tms', recs')"
    by (auto split: sum.splits)
  from Cons.IH [OF rest] obtain vs where vs: "length vs = length idxs" "tms' = (tms @ [v]) @ vs"
    "recs' = (recs @ [\<lparr>threads = t, run_idx = i, ms = v\<rparr>]) @
       map (\<lambda>(i, v). \<lparr>threads = t, run_idx = i, ms = v\<rparr>) (zip idxs vs)"
    "\<forall>k<length idxs. run_java (run_t (idxs ! k)) = Inr (vs ! k)" by blast
  have "\<forall>k<length (i # idxs). run_java (run_t ((i # idxs) ! k)) = Inr ((v # vs) ! k)"
    using v vs(4) by (auto simp: nth_Cons split: nat.splits)
  with vs show ?case by (intro exI [of _ "v # vs"]) simp
qed

lemma decide_strict:
  assumes "0 \<le> mean_t" and "lt_bound (mean_t + eps) best"
  shows "decide patience min_gain mean_t best no_imp =
           Inr (Finite mean_t, 0,
                NewBest (case best of Infinity \<Rightarrow> 1 | Finite b \<Rightarrow> (b - mean_t) / b), False)"
proof (cases best)
  case Infinity
  then show ?thesis by (simp add: decide_def)
next
  case (Finite b)
  with assms have "0 < b" using eps_pos by simp
  with Finite assms show ?thesis by (simp add: decide_def rel_gain_def)
qed

subsection \<open>The strict-improvement step\<close>



lemma decide_no_gain:
  assumes "0 < min_gain" and "eps / min_gain < b" and "\<not> mean_t + eps < b"
  shows "(b - mean_t) / b < min_gain"
proof -
  have "0 < eps / min_gain" using assms(1) eps_pos by simp
  with assms(2) have bpos: "0 < b" by linarith
  have "b - mean_t \<le> eps" using assms(3) by simp
  then have "(b - mean_t) / b \<le> eps / b" using bpos by (simp add: divide_right_mono)
  also have "eps / b < min_gain" using assms(1,2) bpos by (simp add: field_simps)
  finally show ?thesis .
qed

subsection \<open>The gain branch\<close>



subsection \<open>The gain branch over a whole sweep\<close>

text \<open>
  When every measurement is above \<open>eps / min_gain\<close>, so is every mean and every best
  mean, and no level of the sweep prints that its gain was sufficient.
\<close>

lemma sum_list_above:
  "xs \<noteq> [] \<Longrightarrow> \<forall>x\<in>set xs. c < real_of_int x \<Longrightarrow>
   real (length xs) * c < real_of_int (sum_list xs)"
proof (induction xs rule: list_nonempty_induct)
  case (single x)
  then show ?case by simp
next
  case (cons x xs)
  then have "real (length xs) * c < real_of_int (sum_list xs)" "c < real_of_int x" by simp_all
  then show ?case by (simp add: algebra_simps)
qed

lemma statistics_mean_above:
  assumes "statistics_mean xs = Inr mu" and "\<forall>x\<in>set xs. c < real_of_int x"
  shows "c < mu"
proof -
  from assms(1) have ne: "xs \<noteq> []" and mu: "mu = real_of_int (sum_list xs) / real (length xs)"
    by (auto simp: statistics_mean_def split: if_splits)
  from sum_list_above [OF ne assms(2)] ne show ?thesis
    unfolding mu by (simp add: pos_less_divide_eq mult.commute)
qed

lemma sweep_level_no_gain_branch:
  assumes gain: "0 < min_gain"
    and meas: "\<forall>i v. run_java (run t i) = Inr v \<longrightarrow> eps / min_gain < real_of_int v"
    and inv: "best_mean st = Infinity \<or> (\<exists>b. best_mean st = Finite b \<and> eps / min_gain < b)"
    and level: "sweep_level run iters p min_gain t st = Inr (st', brk)"
  shows "(best_mean st' = Infinity \<or> (\<exists>b. best_mean st' = Finite b \<and> eps / min_gain < b)) \<and>
         (\<exists>out. console st' = console st @ [(t, out)] \<and> out \<noteq> GainContinues)"
proof -
  from level obtain tms recs mean_t std_t b n out where
    ri: "run_iters (run t) t [1..iters] ([], records st) = Inr (tms, recs)"
    and ss: "sample_stats tms = Inr (mean_t, std_t)"
    and d: "decide p min_gain mean_t (best_mean st) (no_improve st) = Inr (b, n, out, brk)"
    and st': "st' = \<lparr>records = recs, best_mean = b, no_improve = n,
                     console = console st @ [(t, out)]\<rparr>"
    by (auto simp: sweep_level_def split: sum.splits prod.splits)
  from run_iters_Inr [OF ri] obtain vs where vs: "tms = vs"
    "\<forall>k<length [1..iters]. run_java (run t ([1..iters] ! k)) = Inr (vs ! k)"
    "length vs = length [1..iters]"
    by auto
  have "\<forall>x\<in>set tms. eps / min_gain < real_of_int x"
    using vs meas by (metis in_set_conv_nth)
  from statistics_mean_above [OF sample_stats_Inr [OF ss] this]
  have above: "eps / min_gain < mean_t" .
  show ?thesis
  proof (cases "lt_bound (mean_t + eps) (best_mean st)")
    case True
    with d have "b = Finite mean_t" "\<exists>g. out = NewBest g"
      by (auto simp: decide_def split: sum.splits)
    with above st' show ?thesis by auto
  next
    case False
    then obtain b0 where b0: "best_mean st = Finite b0" "\<not> mean_t + eps < b0"
      by (cases "best_mean st") auto
    with inv have "eps / min_gain < b0" by simp
    from decide_no_gain [OF gain this b0(2)] have "(b0 - mean_t) / b0 < min_gain" .
    with d False b0 have "b = Finite b0" "\<exists>c. out = NoGain c"
      by (auto simp: decide_def rel_gain_def split: if_splits)
    with b0 inv st' show ?thesis by auto
  qed
qed

lemma sweep_loop_no_gain_branch:
  assumes gain: "0 < min_gain"
    and meas: "\<forall>t i v. run_java (run t i) = Inr v \<longrightarrow> eps / min_gain < real_of_int v"
  shows "best_mean st = Infinity \<or> (\<exists>b. best_mean st = Finite b \<and> eps / min_gain < b) \<Longrightarrow>
         sweep_loop run iters p min_gain ts st = Inr (st', brk) \<Longrightarrow>
         GainContinues \<notin> snd ` set (console st) \<Longrightarrow>
         GainContinues \<notin> snd ` set (console st')"
proof (induction ts arbitrary: st)
  case Nil
  then show ?case by simp
next
  case (Cons t ts)
  from Cons.prems(2) obtain st1 b1 where l: "sweep_level run iters p min_gain t st = Inr (st1, b1)"
    by (auto split: sum.splits)
  have m: "\<forall>i v. run_java (run t i) = Inr v \<longrightarrow> eps / min_gain < real_of_int v"
    using meas by blast
  from sweep_level_no_gain_branch [OF gain m Cons.prems(1) l] obtain out where
    inv1: "best_mean st1 = Infinity \<or> (\<exists>b. best_mean st1 = Finite b \<and> eps / min_gain < b)"
    and con: "console st1 = console st @ [(t, out)]" "out \<noteq> GainContinues"
    by blast
  have c1: "GainContinues \<notin> snd ` set (console st1)"
    using Cons.prems(3) con by auto
  show ?case
  proof (cases b1)
    case True
    with Cons.prems(2) l have "st' = st1" by simp
    with c1 show ?thesis by simp
  next
    case False
    with Cons.prems(2) l have "sweep_loop run iters p min_gain ts st1 = Inr (st', brk)" by simp
    from Cons.IH [OF inv1 this c1] show ?thesis .
  qed
qed

lemma gain_branch_never_taken:
  assumes "0 < min_gain"
    and "\<forall>t i v. run_java (run t i) = Inr v \<longrightarrow> eps / min_gain < real_of_int v"
    and "sweep_run run iters tmin tmax p min_gain = Inr (st, brk)"
  shows "GainContinues \<notin> snd ` set (console st)"
  using sweep_loop_no_gain_branch [OF assms(1,2), of init_state iters p "[tmin..tmax]" st brk]
    assms(3)
  by (simp add: sweep_run_def init_state_def)

subsection \<open>Division by a zero best mean\<close>

lemma decide_zero: "decide patience min_gain mean_t (Finite 0) no_imp = Inl ZeroDivisionError"
  by (simp add: decide_def rel_gain_def)

lemma decide_nonzero:
  "best \<noteq> Finite 0 \<Longrightarrow> \<exists>r. decide patience min_gain mean_t best no_imp = Inr r"
  by (cases best) (auto simp: decide_def rel_gain_def)

text \<open>
  Claim C9. When a level with mean exactly 0 is evaluated as a strict improvement,
  \<open>best_mean\<close> becomes 0, and the next level whose trials succeed makes the sweep raise
  \<^verbatim>\<open>ZeroDivisionError\<close> in the gain quotient, whatever its mean. The quotient is
  computed without error exactly when the recorded best mean is not 0.
\<close>

theorem zero_mean_division:
  assumes first: "run_iters (run t) t [1..iters] ([], records st) = Inr (tms, recs)"
    and zero: "statistics_mean tms = Inr 0"
    and improves: "lt_bound (0 + eps) (best_mean st)"
    and later: "run_iters (run t') t' [1..iters] ([], recs) = Inr (tms', recs')"
    and mean: "statistics_mean tms' = Inr mean_t"
  shows "(\<exists>st1. sweep_level run iters patience min_gain t st = Inr (st1, False) \<and>
               best_mean st1 = Finite 0) \<and>
         sweep_loop run iters patience min_gain (t # t' # ts) st = Inl ZeroDivisionError \<and>
         (\<forall>best m n. (\<exists>r. decide patience min_gain m best n = Inr r) = (best \<noteq> Finite 0))"
proof -
  from sample_stats_mean [OF zero] obtain s where s: "sample_stats tms = Inr (0, s)" ..
  from sample_stats_mean [OF mean] obtain s' where s': "sample_stats tms' = Inr (mean_t, s')" ..
  let ?out = "NewBest (case best_mean st of Infinity \<Rightarrow> 1 | Finite b \<Rightarrow> (b - 0) / b)"
  let ?st1 = "\<lparr>records = recs, best_mean = Finite 0, no_improve = 0,
               console = console st @ [(t, ?out)]\<rparr>"
  have "decide patience min_gain 0 (best_mean st) (no_improve st) =
          Inr (Finite 0, 0, ?out, False)"
    using decide_strict [of 0 "best_mean st"] improves by simp
  with first s have l1: "sweep_level run iters patience min_gain t st = Inr (?st1, False)"
    by (simp add: sweep_level_def)
  have l2: "sweep_level run iters patience min_gain t' ?st1 = Inl ZeroDivisionError"
    using later s' by (simp add: sweep_level_def decide_zero)
  have d: "\<forall>best m n. (\<exists>r. decide patience min_gain m best n = Inr r) = (best \<noteq> Finite 0)"
    using decide_zero decide_nonzero by (metis Inl_Inr_False)
  from l1 have "\<exists>st1. sweep_level run iters patience min_gain t st = Inr (st1, False) \<and>
               best_mean st1 = Finite 0" by simp
  moreover from l1 l2
  have "sweep_loop run iters patience min_gain (t # t' # ts) st = Inl ZeroDivisionError"
    by simp
  ultimately show ?thesis using d by blast
qed

theorem zero_mean_division_witness:
  "sweep_threads zero_run 2 1 2 2 (1 / 50) = Inl ZeroDivisionError"
proof -
  have u: "[1..2] = [1, 2 :: int]" by (simp add: upto.simps)
  have r1: "run_iters (zero_run 1) 1 [1..2] ([], records init_state) =
      Inr ([0, 0], [\<lparr>threads = 1, run_idx = 1, ms = 0\<rparr>, \<lparr>threads = 1, run_idx = 2, ms = 0\<rparr>])"
    by (simp add: u run_java_zero init_state_def)
  have m1: "statistics_mean [0, 0] = Inr 0" by (simp add: statistics_mean_def)
  have i: "lt_bound (0 + eps) (best_mean init_state)" by (simp add: init_state_def)
  have r2: "run_iters (zero_run 2) 2 [1..2]
      ([], [\<lparr>threads = 1, run_idx = 1, ms = 0\<rparr>, \<lparr>threads = 1, run_idx = 2, ms = 0\<rparr>]) =
      Inr ([3, 3], [\<lparr>threads = 1, run_idx = 1, ms = 0\<rparr>, \<lparr>threads = 1, run_idx = 2, ms = 0\<rparr>,
                    \<lparr>threads = 2, run_idx = 1, ms = 3\<rparr>, \<lparr>threads = 2, run_idx = 2, ms = 3\<rparr>])"
    by (simp add: u run_java_zero)
  have m2: "statistics_mean [3, 3] = Inr 3" by (simp add: statistics_mean_def)
  from zero_mean_division
    [where run = zero_run and t = 1 and t' = 2 and iters = 2 and st = init_state
       and patience = 2 and min_gain = "1 / 50" and ts = "[]", OF r1 m1 i r2 m2]
  have "sweep_loop zero_run 2 2 (1 / 50) [1, 2] init_state = Inl ZeroDivisionError" by blast
  then show ?thesis by (simp add: sweep_threads_def sweep_run_def u)
qed

subsection \<open>The samples of one level and their statistics\<close>

text \<open>
  Claim C5. For a level \<open>t\<close> and a trial count \<open>N \<ge> 1\<close> whose \<open>N\<close> invocations all
  succeed, the inner loop runs the trials 1 to \<open>N\<close> in this order, once each, and
  appends their \<open>N\<close> measurements in this order with the run indices 1 to \<open>N\<close>; the
  statistics of the level are the arithmetic mean of the \<open>N\<close> samples and their
  population standard deviation (the divisor is \<open>N\<close>, not \<open>N - 1\<close>), which is 0 for
  \<open>N = 1\<close>.
\<close>

theorem sample_collector_statistics:
  fixes m :: "int \<Rightarrow> int" and N :: int
  defines "mu \<equiv> (\<Sum>i\<leftarrow>[1..N]. real_of_int (m i)) / real_of_int N"
  assumes N: "1 \<le> N"
    and ok: "\<forall>i\<in>{1..N}. run_java (run_t i) = Inr (m i)"
  shows "run_iters run_t t [1..N] ([], recs) =
           Inr (map m [1..N],
                recs @ map (\<lambda>i. \<lparr>threads = t, run_idx = i, ms = m i\<rparr>) [1..N]) \<and>
         int (length (map m [1..N])) = N \<and>
         sample_stats (map m [1..N]) =
           Inr (mu, sqrt ((\<Sum>i\<leftarrow>[1..N]. (real_of_int (m i) - mu)\<^sup>2) / real_of_int N)) \<and>
         (N = 1 \<longrightarrow> sample_stats (map m [1..N]) = Inr (real_of_int (m 1), 0))"
proof -
  have ne: "map m [1..N] \<noteq> []" using N by simp
  have len: "real (length (map m [1..N])) = real_of_int N" using N by simp
  have sum: "real_of_int (sum_list (map m [1..N])) = (\<Sum>i\<leftarrow>[1..N]. real_of_int (m i))"
    using sum_list_of_int [of "map m [1..N]", where ?'a = real] by (simp add: comp_def)
  have mean: "statistics_mean (map m [1..N]) = Inr mu"
    using ne len sum by (simp add: statistics_mean_def mu_def)
  have dev: "(\<Sum>x\<leftarrow>map m [1..N]. (real_of_int x - mu)\<^sup>2) =
             (\<Sum>i\<leftarrow>[1..N]. (real_of_int (m i) - mu)\<^sup>2)"
    by (simp add: comp_def)
  have pst: "statistics_pstdev (map m [1..N]) =
      Inr (sqrt ((\<Sum>i\<leftarrow>[1..N]. (real_of_int (m i) - mu)\<^sup>2) / real_of_int N))"
    using mean dev len by (simp add: statistics_pstdev_def del: length_map)
  have one: "N = 1 \<Longrightarrow> (\<Sum>i\<leftarrow>[1..N]. (real_of_int (m i) - mu)\<^sup>2) = 0"
    by (simp add: mu_def)
  have stats: "sample_stats (map m [1..N]) =
      Inr (mu, sqrt ((\<Sum>i\<leftarrow>[1..N]. (real_of_int (m i) - mu)\<^sup>2) / real_of_int N))"
  proof (cases "N = 1")
    case True
    with one mean show ?thesis by (simp add: sample_stats_def)
  next
    case False
    with N have "1 < length (map m [1..N])" by simp
    with mean pst show ?thesis by (simp add: sample_stats_def del: length_map)
  qed
  have run: "run_iters run_t t [1..N] ([], recs) =
           Inr (map m [1..N],
                recs @ map (\<lambda>i. \<lparr>threads = t, run_idx = i, ms = m i\<rparr>) [1..N])"
    using run_iters_ok [of "[1..N]" run_t m t "[]" recs] ok by simp
  have "N = 1 \<longrightarrow> sample_stats (map m [1..N]) = Inr (real_of_int (m 1), 0)"
    using stats one by (auto simp: mu_def)
  with run stats N show ?thesis by simp
qed

theorem sample_collector_statistics_witness:
  "run_iters (scenario_run 2) 2 [1..3] ([], []) =
     Inr ([600, 600, 600],
          [\<lparr>threads = 2, run_idx = 1, ms = 600\<rparr>, \<lparr>threads = 2, run_idx = 2, ms = 600\<rparr>,
           \<lparr>threads = 2, run_idx = 3, ms = 600\<rparr>]) \<and>
   sample_stats [600, 600, 600] = Inr (600, 0)"
proof -
  have u: "[1..3] = [1, 2, 3 :: int]" by (simp add: upto.simps)
  have ok: "\<forall>i\<in>{1..3}. run_java (scenario_run 2 i) = Inr ((\<lambda>i. 600) i)"
    by (simp add: run_java_scenario)
  from sample_collector_statistics
    [where N = 3 and run_t = "scenario_run 2" and m = "\<lambda>i. 600" and t = 2 and recs = "[]", OF _ ok]
  show ?thesis by (simp add: u)
qed

text \<open>The divisor is the number of samples: for the samples 1 and 3 the deviation is 1
  (with the divisor \<open>N - 1\<close> it would be the square root of 2).\<close>

lemma population_deviation_example: "sample_stats [1, 3] = Inr (2, 1)"
  by (simp add: sample_stats_def statistics_mean_def statistics_pstdev_def)

subsection \<open>Facts about one level and about the loop\<close>



lemma sweep_level_Inr:
  assumes "sweep_level run iters p g t st = Inr (st', brk)"
  shows "\<exists>out new. console st' = console st @ [(t, out)] \<and> records st' = records st @ new \<and>
           length new = length [1..iters] \<and> (\<forall>r\<in>set new. threads r = t) \<and>
           (case out of
              NoGain c \<Rightarrow> c = no_improve st + 1 \<and> no_improve st' = c \<and> brk = (p \<le> c)
            | _ \<Rightarrow> no_improve st' = 0 \<and> \<not> brk)"
proof -
  from assms obtain tms recs mean_t std_t b n out where
    ri: "run_iters (run t) t [1..iters] ([], records st) = Inr (tms, recs)"
    and d: "decide p g mean_t (best_mean st) (no_improve st) = Inr (b, n, out, brk)"
    and st': "st' = \<lparr>records = recs, best_mean = b, no_improve = n,
                     console = console st @ [(t, out)]\<rparr>"
    by (auto simp: sweep_level_def split: sum.splits prod.splits)
  from run_iters_Inr [OF ri] obtain vs where vs: "length vs = length [1..iters]"
    "recs = records st @ map (\<lambda>(i, v). \<lparr>threads = t, run_idx = i, ms = v\<rparr>) (zip [1..iters] vs)"
    by blast
  have "case out of
              NoGain c \<Rightarrow> c = no_improve st + 1 \<and> n = c \<and> brk = (p \<le> c)
            | _ \<Rightarrow> n = 0 \<and> \<not> brk"
    using d by (auto simp: decide_def split: if_splits sum.splits bound.splits)
  with vs st' show ?thesis
    by (intro exI [of _ out]
          exI [of _ "map (\<lambda>(i, v). \<lparr>threads = t, run_idx = i, ms = v\<rparr>) (zip [1..iters] vs)"])
       (auto split: outcome.splits)
qed

lemma sweep_loop_append:
  "sweep_loop run iters p g (xs @ ys) st =
     (case sweep_loop run iters p g xs st of
        Inl e \<Rightarrow> Inl e
      | Inr (st1, b) \<Rightarrow> if b then Inr (st1, True) else sweep_loop run iters p g ys st1)"
  by (induction xs arbitrary: st) (auto split: sum.splits)



subsection \<open>The first level\<close>



subsection \<open>A sweep that improves at every level\<close>






subsection \<open>Early stopping\<close>

lemma sweep_level_counter:
  assumes "sweep_level run iters p g t st = Inr (st', brk)" and "0 \<le> no_improve st"
  shows "0 \<le> no_improve st'"
proof -
  from sweep_level_Inr [OF assms(1)] obtain out where
    "case out of
       NoGain c \<Rightarrow> c = no_improve st + 1 \<and> no_improve st' = c \<and> brk = (p \<le> c)
     | _ \<Rightarrow> no_improve st' = 0 \<and> \<not> brk"
    by blast
  with assms(2) show ?thesis by (cases out) simp_all
qed

text \<open>
  The console after the loop lists the levels that were evaluated, in order, each with
  its outcome \<open>outs\<close>; the rows carry the same levels. A run of consecutive levels without
  relevant gain that is at least as long as the patience (the counter at the start counts
  for a run that begins at the first level) ends the list, and the loop has stopped there.
\<close>

lemma sweep_loop_trace:
  assumes "sweep_loop run iters p g ts st = Inr (st', b)" and "0 \<le> no_improve st"
  shows "\<exists>outs. length outs \<le> length ts \<and> console st' = console st @ zip ts outs \<and>
           map threads (records st') =
             map threads (records st) @
               concat (map (replicate (length [1..iters])) (take (length outs) ts)) \<and>
           (\<forall>pre win post. outs = pre @ win @ post \<longrightarrow> win \<noteq> [] \<longrightarrow>
              (\<forall>out\<in>set win. \<exists>c. out = NoGain c) \<longrightarrow>
              p \<le> (if pre = [] then no_improve st else 0) + int (length win) \<longrightarrow>
              post = [] \<and> b)"
  using assms
proof (induction ts arbitrary: st)
  case Nil
  then show ?case by simp
next
  case (Cons t ts)
  from Cons.prems(1) obtain st1 b1 where l: "sweep_level run iters p g t st = Inr (st1, b1)"
    by (auto split: sum.splits)
  from sweep_level_Inr [OF l] obtain out new where
    con: "console st1 = console st @ [(t, out)]"
    and rec: "records st1 = records st @ new"
    and len: "length new = length [1..iters]"
    and thr: "\<forall>r\<in>set new. threads r = t"
    and cnt: "case out of
                NoGain c \<Rightarrow> c = no_improve st + 1 \<and> no_improve st1 = c \<and> b1 = (p \<le> c)
              | _ \<Rightarrow> no_improve st1 = 0 \<and> \<not> b1"
    by blast
  have "\<forall>y\<in>set (map threads new). y = t" using thr by simp
  from replicate_length_same [OF this] len
  have new: "map threads new = replicate (length [1..iters]) t" by simp
  show ?case
  proof (cases b1)
    case True
    with Cons.prems(1) l have fin: "st' = st1" "b" by simp_all
    have "\<forall>pre win post. [out] = pre @ win @ post \<longrightarrow> win \<noteq> [] \<longrightarrow> post = [] \<and> b"
      using fin by (auto simp: Cons_eq_append_conv)
    with con rec new fin show ?thesis
      by (intro exI [of _ "[out]"]) simp
  next
    case False
    with Cons.prems(1) l have rest: "sweep_loop run iters p g ts st1 = Inr (st', b)" by simp
    have n1: "0 \<le> no_improve st1" by (rule sweep_level_counter [OF l Cons.prems(2)])
    from Cons.IH [OF rest n1] obtain outs where
      o1: "length outs \<le> length ts"
      and o2: "console st' = console st1 @ zip ts outs"
      and o3: "map threads (records st') =
                 map threads (records st1) @
                   concat (map (replicate (length [1..iters])) (take (length outs) ts))"
      and o4: "\<And>pre win post. outs = pre @ win @ post \<Longrightarrow> win \<noteq> [] \<Longrightarrow>
              (\<forall>out\<in>set win. \<exists>c. out = NoGain c) \<Longrightarrow>
              p \<le> (if pre = [] then no_improve st1 else 0) + int (length win) \<Longrightarrow>
              post = [] \<and> b"
      by blast
    have win: "post = [] \<and> b"
      if dec: "out # outs = pre @ win @ post" and ne: "win \<noteq> []"
        and all: "\<forall>out\<in>set win. \<exists>c. out = NoGain c"
        and long: "p \<le> (if pre = [] then no_improve st else 0) + int (length win)"
      for pre win post
    proof (cases pre)
      case Nil
      with dec ne obtain win' where w: "win = out # win'" "outs = win' @ post"
        by (cases win) auto
      from all w obtain c where c: "out = NoGain c" by auto
      with cnt False have c': "c = no_improve st + 1" "no_improve st1 = c" "\<not> p \<le> c"
        by simp_all
      show ?thesis
      proof (cases "win' = []")
        case True
        with long Nil w c' show ?thesis by simp
      next
        case False
        have d': "outs = [] @ win' @ post" using w by simp
        have all': "\<forall>out\<in>set win'. \<exists>c. out = NoGain c" using all w by simp
        have long': "p \<le> (if [] = ([] :: outcome list) then no_improve st1 else 0)
                          + int (length win')"
          using long Nil w c' by simp
        show ?thesis by (rule o4 [OF d' False all' long'])
      qed
    next
      case (Cons x pre')
      with dec have d': "outs = pre' @ win @ post" by simp
      have long': "p \<le> (if pre' = [] then no_improve st1 else 0) + int (length win)"
        using long Cons n1 by simp
      show ?thesis by (rule o4 [OF d' ne all long'])
    qed
    have "console st' = console st @ zip (t # ts) (out # outs)" using o2 con by simp
    moreover have "map threads (records st') =
        map threads (records st) @
          concat (map (replicate (length [1..iters])) (take (length (out # outs)) (t # ts)))"
      using o3 rec new by simp
    moreover have "length (out # outs) \<le> length (t # ts)" using o1 by simp
    ultimately show ?thesis using win by (intro exI [of _ "out # outs"]) blast
  qed
qed

lemma take_upto_prefix:
  assumes "tmin \<le> t + 1" and "t \<le> tmax"
  shows "take (nat (t + 1 - tmin)) [tmin..tmax] = [tmin..t]"
proof (cases "tmin \<le> t")
  case True
  from upto_split2 [OF True assms(2)] have "[tmin..tmax] = [tmin..t] @ [t + 1..tmax]" .
  moreover have "length [tmin..t] = nat (t + 1 - tmin)" by (simp add: algebra_simps)
  ultimately show ?thesis by (metis append_eq_conv_conj)
next
  case False
  with assms show ?thesis by simp
qed

text \<open>
  Claim C2. In a sweep that returns, let \<open>k \<ge> 1\<close> consecutive levels, the last of them
  \<open>t\<close>, fail both the strict-improvement check and the gain check, with \<open>k\<close> at least
  the patience \<open>p\<close> (for a patience \<open>p \<ge> 1\<close>: \<open>p\<close> consecutive levels). Then the sweep
  has stopped by \<^verbatim>\<open>break\<close> at level \<open>t\<close>: the levels evaluated are exactly \<open>tmin\<close> to
  \<open>t\<close>, no later level is evaluated, and the largest level among the returned rows is
  \<open>t\<close>.
\<close>

theorem early_stop_by_patience:
  assumes run: "sweep_run run iters tmin tmax p g = Inr (st, brk)"
    and iters: "1 \<le> iters"
    and k: "1 \<le> k" "p \<le> k"
    and window: "\<forall>s\<in>{t - k + 1..t}. \<exists>c. (s, NoGain c) \<in> set (console st)"
  shows "brk \<and> map fst (console st) = [tmin..t] \<and>
         threads ` set (records st) = {tmin..t} \<and>
         Max (threads ` set (records st)) = t \<and>
         sweep_threads run iters tmin tmax p g = Inr (records st)"
proof -
  let ?ts = "[tmin..tmax]"
  from run have loop: "sweep_loop run iters p g ?ts init_state = Inr (st, brk)"
    by (simp add: sweep_run_def)
  have "0 \<le> no_improve init_state" by (simp add: init_state_def)
  from sweep_loop_trace [OF loop this] obtain outs where
    len: "length outs \<le> length ?ts"
    and con: "console st = zip ?ts outs"
    and thr: "map threads (records st) =
                concat (map (replicate (length [1..iters])) (take (length outs) ?ts))"
    and stop: "\<And>pre win post. outs = pre @ win @ post \<Longrightarrow> win \<noteq> [] \<Longrightarrow>
              (\<forall>out\<in>set win. \<exists>c. out = NoGain c) \<Longrightarrow>
              p \<le> (if pre = [] then no_improve init_state else 0) + int (length win) \<Longrightarrow>
              post = [] \<and> brk"
    by (auto simp: init_state_def)
  have entry: "tmin \<le> s \<and> nat (s - tmin) < length outs \<and> (\<exists>c. outs ! nat (s - tmin) = NoGain c)"
    if "s \<in> {t - k + 1..t}" for s
  proof -
    from window that obtain c where "(s, NoGain c) \<in> set (zip ?ts outs)"
      unfolding con by blast
    then obtain i where i: "?ts ! i = s" "outs ! i = NoGain c" "i < length ?ts" "i < length outs"
      by (auto simp: in_set_zip)
    from i(3) have "tmin + int i \<le> tmax" by simp
    then have "?ts ! i = tmin + int i" by (rule nth_upto)
    with i(1) have "i = nat (s - tmin)" "tmin \<le> s" by simp_all
    with i show ?thesis by auto
  qed
  define j where "j = nat (t - k + 1 - tmin)"
  define n where "n = nat k"
  have first: "tmin \<le> t - k + 1" using entry [of "t - k + 1"] k by simp
  have last: "nat (t - tmin) < length outs" using entry [of t] k by simp
  have jn: "j + n = nat (t + 1 - tmin)" using first k by (simp add: j_def n_def)
  have jn_le: "j + n \<le> length outs" using last first k jn by linarith
  let ?pre = "take j outs" and ?win = "take n (drop j outs)" and ?post = "drop (j + n) outs"
  have split: "outs = ?pre @ ?win @ ?post"
    by (metis add.commute append_take_drop_id drop_drop)
  have lwin: "length ?win = n" using jn_le by simp
  have ne: "?win \<noteq> []" using lwin k by (auto simp: n_def)
  have all: "\<forall>out\<in>set ?win. \<exists>c. out = NoGain c"
  proof
    fix out assume "out \<in> set ?win"
    then obtain i where i: "i < n" "out = ?win ! i"
      using lwin by (metis in_set_conv_nth)
    then have o: "out = outs ! (j + i)" using jn_le by simp
    have "t - k + 1 + int i \<in> {t - k + 1..t}" using i(1) by (simp add: n_def)
    from entry [OF this] obtain c where "outs ! nat (t - k + 1 + int i - tmin) = NoGain c"
      by blast
    moreover have "nat (t - k + 1 + int i - tmin) = j + i" using first by (simp add: j_def)
    ultimately show "\<exists>c. out = NoGain c" using o by auto
  qed
  have long: "p \<le> (if ?pre = [] then no_improve init_state else 0) + int (length ?win)"
    using k lwin by (simp add: init_state_def n_def)
  from stop [OF split ne all long] have post: "?post = []" and brk: brk by simp_all
  from post jn_le have L: "length outs = nat (t + 1 - tmin)" using jn by simp
  have t_le: "t \<le> tmax" using last len by simp
  have t_ge: "tmin \<le> t" using first k by simp
  have levels: "take (length outs) ?ts = [tmin..t]"
    unfolding L using t_ge t_le by (intro take_upto_prefix) simp_all
  have c: "map fst (console st) = [tmin..t]"
    using len levels by (simp add: con map_fst_zip_take min_def)
  have pos: "0 < length [1..iters]" using iters by simp
  have "threads ` set (records st) = set (map threads (records st))" by simp
  also have "\<dots> = {tmin..t}" unfolding thr levels using pos by auto
  finally have s: "threads ` set (records st) = {tmin..t}" .
  have m: "Max (threads ` set (records st)) = t"
    unfolding s using t_ge by (intro Max_eqI) simp_all
  have "sweep_threads run iters tmin tmax p g = Inr (records st)"
    using run by (simp add: sweep_threads_def)
  with brk c s m show ?thesis by simp
qed

theorem early_stop_by_patience_witness:
  "sweep_run scenario_run 1 1 7 2 (1 / 50) =
     Inr (\<lparr>records = [\<lparr>threads = 1, run_idx = 1, ms = 1000\<rparr>, \<lparr>threads = 2, run_idx = 1, ms = 600\<rparr>,
                      \<lparr>threads = 3, run_idx = 1, ms = 590\<rparr>, \<lparr>threads = 4, run_idx = 1, ms = 592\<rparr>,
                      \<lparr>threads = 5, run_idx = 1, ms = 591\<rparr>],
           best_mean = Finite 590, no_improve = 2,
           console = [(1, NewBest 1), (2, NewBest (2 / 5)), (3, NewBest (1 / 60)),
                      (4, NoGain 1), (5, NoGain 2)]\<rparr>, True) \<and>
   Max (threads ` set [\<lparr>threads = 1, run_idx = 1, ms = 1000\<rparr>, \<lparr>threads = 2, run_idx = 1, ms = 600\<rparr>,
                      \<lparr>threads = 3, run_idx = 1, ms = 590\<rparr>, \<lparr>threads = 4, run_idx = 1, ms = 592\<rparr>,
                      \<lparr>threads = 5, run_idx = 1, ms = 591\<rparr>]) = 5"
proof -
  let ?st = "\<lparr>records = [\<lparr>threads = 1, run_idx = 1, ms = 1000\<rparr>, \<lparr>threads = 2, run_idx = 1, ms = 600\<rparr>,
                      \<lparr>threads = 3, run_idx = 1, ms = 590\<rparr>, \<lparr>threads = 4, run_idx = 1, ms = 592\<rparr>,
                      \<lparr>threads = 5, run_idx = 1, ms = 591\<rparr>],
           best_mean = Finite 590, no_improve = 2,
           console = [(1, NewBest 1), (2, NewBest (2 / 5)), (3, NewBest (1 / 60)),
                      (4, NoGain 1), (5, NoGain 2)]\<rparr>"
  have u7: "[1..7] = [1, 2, 3, 4, 5, 6, 7 :: int]" by (simp add: upto.simps)
  have run: "sweep_run scenario_run 1 1 7 2 (1 / 50) = Inr (?st, True)"
    by (simp add: sweep_run_def sweep_level_def u7 run_java_scenario init_state_def
        sample_stats_def statistics_mean_def statistics_pstdev_def decide_def rel_gain_def
        eps_def)
  have s: "{5 - 2 + 1..5} = {4, 5 :: int}" by auto
  have w: "\<forall>s\<in>{5 - 2 + 1..5}. \<exists>c. (s, NoGain c) \<in> set (console ?st)"
    unfolding s by simp
  have h: "1 \<le> (1 :: int)" "1 \<le> (2 :: int)" "(2 :: int) \<le> 2" by simp_all
  from early_stop_by_patience [OF run h w]
  have "Max (threads ` set (records ?st)) = 5" by (elim conjE)
  then have "Max (threads ` set [\<lparr>threads = 1, run_idx = 1, ms = 1000\<rparr>,
      \<lparr>threads = 2, run_idx = 1, ms = 600\<rparr>, \<lparr>threads = 3, run_idx = 1, ms = 590\<rparr>,
      \<lparr>threads = 4, run_idx = 1, ms = 592\<rparr>, \<lparr>threads = 5, run_idx = 1, ms = 591\<rparr>]) = 5"
    by (simp only: sweep_state.select_convs)
  with run show ?thesis by (intro conjI)
qed

subsection \<open>Failures of the adapter\<close>

lemma upto_split_at: "1 \<le> i \<Longrightarrow> i \<le> N \<Longrightarrow> [1..N] = [1..i - 1] @ i # [i + 1..N]"
  by (rule upto_split3)

text \<open>
  Claim C7, as amended. If the sweep reaches level \<open>t\<close> (the levels before it are
  evaluated without error and without \<^verbatim>\<open>break\<close>), the trials before trial \<open>i\<close> of level
  \<open>t\<close> succeed and trial \<open>i\<close> fails with the error \<open>e\<close>, then \<^verbatim>\<open>sweep_threads\<close> raises
  \<open>e\<close>: no record set is returned, neither for level \<open>t\<close> nor for any other level. The
  error is the one \<^verbatim>\<open>run_java\<close> raised, with nothing added to it.
\<close>

theorem failure_aborts_sweep:
  assumes t: "tmin \<le> t" "t \<le> tmax"
    and i: "1 \<le> i" "i \<le> iters"
    and reach: "sweep_loop run iters p g [tmin..t - 1] init_state = Inr (st1, False)"
    and before: "\<forall>j\<in>{1..<i}. \<exists>v. run_java (run t j) = Inr v"
    and fail: "run_java (run t i) = Inl e"
  shows "sweep_threads run iters tmin tmax p g = Inl e"
proof -
  have "\<forall>j\<in>set [1..i - 1]. \<exists>v. run_java (run t j) = Inr v" using before by simp
  from run_iters_fail [OF this fail]
  have "run_iters (run t) t [1..iters] ([], records st1) = Inl e"
    by (simp add: upto_split_at [OF i])
  then have l: "sweep_level run iters p g t st1 = Inl e" by (simp add: sweep_level_def)
  have "[tmin..tmax] = [tmin..t - 1] @ t # [t + 1..tmax]" using t by (rule upto_split3)
  then have "sweep_loop run iters p g [tmin..tmax] init_state = Inl e"
    using reach l by (simp add: sweep_loop_append)
  then show ?thesis by (simp add: sweep_threads_def sweep_run_def)
qed

theorem failure_aborts_sweep_witness:
  "sweep_threads fail_later_run 2 1 2 2 (1 / 50) = Inl ExecutionFailure"
proof -
  have u: "[1..2] = [1, 2 :: int]" by (simp add: upto.simps)
  have ok: "run_java (fail_later_run 1 j) = Inr 5" for j
    by (simp add: fail_later_run_def run_java_5ms)
  have reach: "sweep_loop fail_later_run 2 2 (1 / 50) [1..2 - 1] init_state =
      Inr (\<lparr>records = [\<lparr>threads = 1, run_idx = 1, ms = 5\<rparr>, \<lparr>threads = 1, run_idx = 2, ms = 5\<rparr>],
            best_mean = Finite 5, no_improve = 0, console = [(1, NewBest 1)]\<rparr>, False)"
    by (simp add: sweep_level_def u ok init_state_def sample_stats_def statistics_mean_def
        statistics_pstdev_def decide_def)
  have s: "{1..<2} = {1 :: int}" by auto
  have before: "\<forall>j\<in>{1..<2}. \<exists>v. run_java (fail_later_run 2 j) = Inr v"
    unfolding s by (simp add: fail_later_run_def run_java_5ms)
  have fail: "run_java (fail_later_run 2 2) = Inl ExecutionFailure"
    by (simp add: fail_later_run_def run_java_nonzero_exit)
  from failure_aborts_sweep [OF _ _ _ _ reach before fail, of 2] show ?thesis by simp
qed

text \<open>
  The error does not tell where the failure occurred: a sweep whose first trial at level
  1 fails and a sweep whose second trial at level 2 fails raise the same error.
\<close>

theorem failure_context_counterexample:
  "sweep_threads fail_first_run 2 1 2 2 (1 / 50) = Inl ExecutionFailure \<and>
   sweep_threads fail_later_run 2 1 2 2 (1 / 50) = Inl ExecutionFailure \<and>
   run_java (fail_first_run 1 1) = Inl ExecutionFailure \<and>
   run_java (fail_later_run 1 1) = Inr 5 \<and>
   run_java (fail_later_run 2 2) = Inl ExecutionFailure"
proof -
  have u: "[1..2] = [1, 2 :: int]" by (simp add: upto.simps)
  have f1: "run_java (fail_first_run 1 1) = Inl ExecutionFailure"
    by (simp add: fail_first_run_def run_java_nonzero_exit)
  have ok: "run_java (fail_later_run 1 j) = Inr 5" for j
    by (simp add: fail_later_run_def run_java_5ms)
  have ok2: "run_java (fail_later_run 2 1) = Inr 5"
    by (simp add: fail_later_run_def run_java_5ms)
  have f2: "run_java (fail_later_run 2 2) = Inl ExecutionFailure"
    by (simp add: fail_later_run_def run_java_nonzero_exit)
  have a: "sweep_threads fail_first_run 2 1 2 2 (1 / 50) = Inl ExecutionFailure"
    by (simp add: sweep_threads_def sweep_run_def sweep_level_def u f1 init_state_def)
  have b: "sweep_threads fail_later_run 2 1 2 2 (1 / 50) = Inl ExecutionFailure"
    by (simp add: sweep_threads_def sweep_run_def sweep_level_def u ok ok2 f2 init_state_def
        sample_stats_def statistics_mean_def statistics_pstdev_def decide_def)
  from a b f1 ok f2 show ?thesis by simp
qed

subsection \<open>The execution adapter\<close>

text \<open>A non-zero exit status is reported by \<open>run_java_nonzero_exit\<close>. Output with a last
  line is parsed or rejected with the parse failure that quotes the line.\<close>

lemma parse_line_cases:
  "(\<exists>v. parse_line line = Inr v) \<or> parse_line line = Inl (ParseFailure line)"
  by (auto simp: parse_line_def parse_fallback_def split: list.splits option.splits)

lemma run_java_with_line:
  assumes "returncode res = 0" and "splitlines (strip (stdout res)) \<noteq> []"
  shows "(\<exists>v. run_java res = Inr v) \<or>
         run_java res = Inl (ParseFailure (last (splitlines (strip (stdout res)))))"
  using assms parse_line_cases [of "last (splitlines (strip (stdout res)))"]
  by (auto simp: run_java_def split: list.splits)

text \<open>A last line without any decimal digit is never read as a number.\<close>

lemma re_search_no_digit: "\<forall>c\<in>set s. \<not> isdecimal_chr c \<Longrightarrow> re_search s = None"
  by (induction s) (simp_all add: re_match_here_def)

lemma split_from_chars:
  "tok \<in> set (split_from cur s) \<Longrightarrow> c \<in> set tok \<Longrightarrow> c \<in> set cur \<or> c \<in> set s"
proof (induction s arbitrary: cur)
  case Nil
  then show ?case by (simp split: if_splits)
next
  case (Cons a s)
  show ?case
  proof (cases "isspace_chr a")
    case True
    with Cons.prems have "tok = cur \<or> tok \<in> set (split_from [] s)"
      by (auto split: if_splits)
    then show ?thesis using Cons.IH [of "[]"] Cons.prems(2) by auto
  next
    case False
    with Cons.prems have "tok \<in> set (split_from (cur @ [a]) s)" by simp
    from Cons.IH [OF this Cons.prems(2)] show ?thesis by auto
  qed
qed

lemma split_token_chars: "tok \<in> set (split line) \<Longrightarrow> set tok \<subseteq> set line"
  using split_from_chars [of tok "[]" line] by (auto simp: split_def)

lemma replace_ms_chars: "set (replace_ms s) \<subseteq> set s"
  by (induction s rule: replace_ms.induct) auto

lemma strip_chars: "set (strip s) \<subseteq> set s"
  by (auto simp: strip_def dest!: set_dropWhileD)

lemma int_body_no_digit: "\<forall>c\<in>set s. \<not> isdecimal_chr c \<Longrightarrow> int_body acc False s = None"
  by (cases s) simp_all

lemma py_int_no_digit:
  assumes "\<forall>c\<in>set s. \<not> isdecimal_chr c"
  shows "py_int s = None"
proof (cases "strip s")
  case Nil
  then show ?thesis by (simp add: py_int_def)
next
  case (Cons c cs)
  have "set (c # cs) \<subseteq> set s" using strip_chars [of s] Cons by simp
  with assms have "\<forall>d\<in>set (c # cs). \<not> isdecimal_chr d" by blast
  then have "int_body 0 False (c # cs) = None" "int_body 0 False cs = None"
    by (simp_all add: int_body_no_digit)
  with Cons show ?thesis by (simp add: py_int_def)
qed

lemma parse_line_no_digit:
  assumes "\<forall>c\<in>set line. \<not> isdecimal_chr c"
  shows "parse_line line = Inl (ParseFailure line)"
proof -
  have fb: "parse_fallback line = Inl (ParseFailure line)"
    by (simp add: parse_fallback_def re_search_no_digit [OF assms])
  show ?thesis
  proof (cases "filter (\<lambda>tok. isdigit tok \<or> endswith_ms tok) (split line)")
    case Nil
    with fb show ?thesis by (simp add: parse_line_def)
  next
    case (Cons tok toks)
    have "last (tok # toks) \<in> set (tok # toks)" by (rule last_in_set) simp
    then have "last (tok # toks) \<in> set (split line)" by (metis Cons filter_is_subset subsetD)
    then have "set (last (tok # toks)) \<subseteq> set line" by (rule split_token_chars)
    with replace_ms_chars [of "last (tok # toks)"] assms
    have "\<forall>c\<in>set (replace_ms (last (tok # toks))). \<not> isdecimal_chr c" by blast
    then have "py_int (replace_ms (last (tok # toks))) = None" by (rule py_int_no_digit)
    with Cons fb show ?thesis by (simp add: parse_line_def)
  qed
qed

text \<open>The value is read from a bare number, from a number with the suffix, and from a
  number followed by the marker.\<close>

lemma run_java_examples:
  "run_java \<lparr>returncode = 0, stdout = ''2055''\<rparr> = Inr 2055"
  "run_java \<lparr>returncode = 0, stdout = ''2055ms''\<rparr> = Inr 2055"
  "run_java \<lparr>returncode = 0, stdout = ''Paralelo (10 threads): 2055 ms''\<rparr> = Inr 2055"
  "run_java \<lparr>returncode = 0, stdout = ''no time here''\<rparr> = Inl (ParseFailure ''no time here'')"
  by code_simp+

text \<open>
  Claim C6. A non-zero exit status raises the execution failure, and a last line without
  a number raises the parse failure. But when the process exits with status 0 and prints
  nothing, there is no last line: \<^verbatim>\<open>run_java\<close> indexes the empty list of lines outside its
  \<^verbatim>\<open>try\<close> block and raises \<^verbatim>\<open>IndexError\<close> instead of the parse failure.
\<close>

theorem run_java_empty_output:
  "run_java \<lparr>returncode = 0, stdout = []\<rparr> = Inl IndexError"
  by (simp add: run_java_def strip_def splitlines_def)

subsection \<open>The speedup table\<close>







end
